theory Spec2Isabelle
  imports Complex_Main "HOL-Library.Word"
begin

unbundle bit_operations_syntax

section \<open>Machine types of the AVR target\<close>

text \<open>
  On avr-gcc \<open>int\<close> is 16 bits wide, so \<open>uint16_t\<close> operands are promoted to
  \<open>unsigned int\<close> and their arithmetic wraps modulo \<open>2 ^ 16\<close>. An \<open>int16_t\<close> is the
  same 16-bit pattern read through \<open>sint\<close>. A \<open>char\<close> is one byte.
\<close>

type_synonym uint16_t = "16 word"
type_synonym int16_t = "16 word"
type_synonym uint8_t = "8 word"
type_synonym char_t = "8 word"

section \<open>Timing calculations\<close>

text \<open>
  The two supported families of microcontrollers differ in \<open>F_CPU\<close> only. The timing
  macros are compile-time constants written with \<open>float\<close> and \<open>double\<close> literals; they
  are embedded here in exact rational arithmetic, the conversion to an integer type
  truncating (all the values are positive, so truncation is \<open>floor\<close>). A
  floating-point evaluation of the same expressions can differ from the exact value by
  at most one tic.
\<close>

datatype mcu = ATtiny13A | ATtiny25_45_85

definition KEY_RATE_0 :: rat where "KEY_RATE_0 = 5"
definition KEY_RATE_1 :: rat where "KEY_RATE_1 = 8"
definition KEY_RATE_2 :: rat where "KEY_RATE_2 = 12"
definition KEY_RATE_3 :: rat where "KEY_RATE_3 = 18"

definition BAUD_RATE :: rat where "BAUD_RATE = 9600"

fun F_CPU :: "mcu \<Rightarrow> rat" where
  "F_CPU ATtiny25_45_85 = 8000000"
| "F_CPU ATtiny13A = 9600000"

definition TIMER_TOP :: "mcu \<Rightarrow> int" where
  "TIMER_TOP m = \<lfloor>F_CPU m / 8 / BAUD_RATE + 5 / 10\<rfloor> - 1"

definition TIC_FREQ :: "mcu \<Rightarrow> rat" where
  "TIC_FREQ m = F_CPU m / 8 / of_int (TIMER_TOP m + 1)"

definition DOT_TIME :: "mcu \<Rightarrow> rat \<Rightarrow> uint16_t" where
  "DOT_TIME m rate = word_of_int \<lfloor>12 / 10 / rate * TIC_FREQ m\<rfloor>"

definition DEBOUNCE_TIME :: "mcu \<Rightarrow> uint16_t" where
  "DEBOUNCE_TIME m = word_of_int \<lfloor>1 / 100 * TIC_FREQ m + 5 / 10\<rfloor>"

section \<open>Timekeeping\<close>

text \<open>
  \<open>system_tics\<close> is incremented by the \<open>TIM0_COMPA\<close> interrupt; \<open>tics()\<close> returns a
  copy of it. The functions below that call \<open>tics()\<close> take the value read as their
  argument \<open>now\<close>.
\<close>

definition TIM0_COMPA_vect :: "uint16_t \<Rightarrow> uint16_t" where
  "TIM0_COMPA_vect system_tics = system_tics + 1"

definition expired :: "uint16_t \<Rightarrow> uint16_t \<Rightarrow> bool" where
  "expired now timeout \<longleftrightarrow> 0 \<le> sint (now - timeout)"

section \<open>Keying speed selection\<close>

definition dot_times :: "mcu \<Rightarrow> uint16_t list" where
  "dot_times m = [DOT_TIME m KEY_RATE_3, DOT_TIME m KEY_RATE_2,
                  DOT_TIME m KEY_RATE_1, DOT_TIME m KEY_RATE_0]"

record delays =
  delay_1u :: uint16_t
  delay_2u :: uint16_t
  delay_3u :: uint16_t

text \<open>\<open>pinb\<close> is the value read from the input port \<open>PINB\<close>.\<close>

definition set_delays :: "mcu \<Rightarrow> uint8_t \<Rightarrow> delays" where
  "set_delays m pinb =
     (let speed = pinb AND 0x03;
          d1 = dot_times m ! unat speed;
          d2 = d1 + d1;
          d3 = d2 + d1
      in \<lparr>delay_1u = d1, delay_2u = d2, delay_3u = d3\<rparr>)"

section \<open>Edge detector\<close>

datatype edge_t = NO_EDGE | RISE | FALL

datatype edge_state = UP | DOWN | BOUNCING

text \<open>
  The static variables of \<open>get_edge\<close>, together with the LED bit of \<open>PORTB\<close> that it
  drives. Static storage is zero-initialised: the detector starts in \<open>UP\<close>.
\<close>

record edge_detector =
  ed_state :: edge_state
  ed_timeout :: uint16_t
  led :: bool

definition edge_detector_init :: edge_detector where
  "edge_detector_init = \<lparr>ed_state = UP, ed_timeout = 0, led = False\<rparr>"

text \<open>
  One call of \<open>get_edge\<close>: \<open>key_down\<close> is the reading of the key pin (the same at
  each place the call reads it), \<open>now\<close> the value of \<open>tics()\<close>.
\<close>

definition get_edge :: "mcu \<Rightarrow> edge_detector \<Rightarrow> bool \<Rightarrow> uint16_t \<Rightarrow> edge_t \<times> edge_detector" where
  "get_edge m s key_down now =
     (case ed_state s of
        UP \<Rightarrow>
          if key_down then (FALL, s\<lparr>ed_state := DOWN, led := True\<rparr>)
          else (NO_EDGE, s)
      | DOWN \<Rightarrow>
          if \<not> key_down
          then (NO_EDGE, s\<lparr>ed_state := BOUNCING, ed_timeout := now + DEBOUNCE_TIME m\<rparr>)
          else (NO_EDGE, s)
      | BOUNCING \<Rightarrow>
          if key_down then (NO_EDGE, s\<lparr>ed_state := DOWN\<rparr>)
          else if expired now (ed_timeout s)
          then (RISE, s\<lparr>ed_state := UP, led := False\<rparr>)
          else (NO_EDGE, s))"

text \<open>A run of polls \<open>(key_down, now)\<close>, collecting the edge returned by each call.\<close>

fun get_edges :: "mcu \<Rightarrow> edge_detector \<Rightarrow> (bool \<times> uint16_t) list \<Rightarrow> edge_t list \<times> edge_detector" where
  "get_edges m s [] = ([], s)"
| "get_edges m s ((k, now) # ps) =
     (let (e, s') = get_edge m s k now;
          (es, s'') = get_edges m s' ps
      in (e # es, s''))"

section \<open>Tokenizer\<close>

datatype symbol_t = NO_SYMBOL | DOT | DASH | END_OF_CHAR | END_OF_WORD

datatype tokenizer_state = INTERWORD | SHORT | LONG | INTERELEMENT | INTERCHARACTER

record tokenizer =
  tk_state :: tokenizer_state
  tk_timeout :: uint16_t

definition tokenizer_init :: tokenizer where
  "tokenizer_init = \<lparr>tk_state = INTERWORD, tk_timeout = 0\<rparr>"

text \<open>One call of \<open>tokenize\<close>; \<open>d\<close> holds the globals written by \<open>set_delays\<close>.\<close>

definition tokenize :: "delays \<Rightarrow> tokenizer \<Rightarrow> edge_t \<Rightarrow> uint16_t \<Rightarrow> symbol_t \<times> tokenizer" where
  "tokenize d s edge now =
     (case tk_state s of
        INTERWORD \<Rightarrow>
          if edge = FALL
          then (NO_SYMBOL, \<lparr>tk_state = SHORT, tk_timeout = now + delay_2u d\<rparr>)
          else (NO_SYMBOL, s)
      | SHORT \<Rightarrow>
          if edge = RISE
          then (DOT, \<lparr>tk_state = INTERELEMENT, tk_timeout = now + delay_2u d\<rparr>)
          else if expired now (tk_timeout s)
          then (NO_SYMBOL, s\<lparr>tk_state := LONG\<rparr>)
          else (NO_SYMBOL, s)
      | LONG \<Rightarrow>
          if edge = RISE
          then (DASH, \<lparr>tk_state = INTERELEMENT, tk_timeout = now + delay_2u d\<rparr>)
          else (NO_SYMBOL, s)
      | INTERELEMENT \<Rightarrow>
          if edge = FALL
          then (NO_SYMBOL, \<lparr>tk_state = SHORT, tk_timeout = now + delay_2u d\<rparr>)
          else if expired now (tk_timeout s)
          then (END_OF_CHAR, \<lparr>tk_state = INTERCHARACTER, tk_timeout = now + delay_3u d\<rparr>)
          else (NO_SYMBOL, s)
      | INTERCHARACTER \<Rightarrow>
          if edge = FALL
          then (NO_SYMBOL, \<lparr>tk_state = SHORT, tk_timeout = now + delay_2u d\<rparr>)
          else if expired now (tk_timeout s)
          then (END_OF_WORD, s\<lparr>tk_state := INTERWORD\<rparr>)
          else (NO_SYMBOL, s))"

text \<open>
  A run of polls \<open>(edge, now)\<close>. The symbols returned are collected in order, the
  polls that return \<open>NO_SYMBOL\<close> contributing nothing.
\<close>

fun tokenize_run :: "delays \<Rightarrow> tokenizer \<Rightarrow> (edge_t \<times> uint16_t) list \<Rightarrow> symbol_t list \<times> tokenizer" where
  "tokenize_run d s [] = ([], s)"
| "tokenize_run d s ((e, now) # ps) =
     (let (symb, s') = tokenize d s e now;
          (syms, s'') = tokenize_run d s' ps
      in ((if symb = NO_SYMBOL then syms else symb # syms), s''))"

text \<open>
  The tokenizer polled once per tic with no edge, at the tics \<open>t0 + 1\<close>, \<dots>,
  \<open>t0 + (n - 1)\<close> that follow an edge seen at \<open>t0\<close>.
\<close>

definition idle_polls :: "uint16_t \<Rightarrow> nat \<Rightarrow> (edge_t \<times> uint16_t) list" where
  "idle_polls t0 n = map (\<lambda>k. (NO_EDGE, t0 + of_nat k)) [1..<n]"

section \<open>Decoder\<close>

definition CODE_LENGTH :: nat where "CODE_LENGTH = 59"

definition morse_code :: "uint16_t list" where
  "morse_code = [
    363, 694, 221,   0, 375,   0,  61, 853, 214, 726,   0, 109,
    698, 190, 365, 110, 682, 341, 171,  87,  47,  31,  62, 122,
    234, 426, 490, 438,   0,  94,   0, 235, 437,   5,  30,  54,
     14,   1,  27,  26,  15,   3,  85,  22,  29,  10,   6,  42,
     53,  90,  13,   7,   2,  11,  23,  21,  46,  86,  58]"

text \<open>The search loop of \<open>code_to_char\<close>, started at index \<open>i\<close>; it returns the final \<open>i\<close>.\<close>

function code_lookup :: "nat \<Rightarrow> uint16_t \<Rightarrow> nat" where
  "code_lookup i code =
     (if i < CODE_LENGTH
      then (if morse_code ! i = code then i else code_lookup (i + 1) code)
      else i)"
  by pat_completeness auto
termination
  by (relation "measure (\<lambda>(i, code). CODE_LENGTH - i)") auto

declare code_lookup.simps [simp del]

definition code_to_char :: "uint16_t \<Rightarrow> char_t" where
  "code_to_char code =
     (let i = code_lookup 0 code
      in if i = 0 then of_char CHR ''_''
         else if i < CODE_LENGTH then of_char CHR '' '' + of_nat i
         else of_char CHR ''#'')"

record decoder =
  code :: uint16_t
  bitmask :: uint16_t

definition decoder_init :: decoder where
  "decoder_init = \<lparr>code = 0, bitmask = 1\<rparr>"

text \<open>One call of \<open>decode\<close>: the character returned (0 for none) and the new statics.\<close>

fun decode :: "decoder \<Rightarrow> symbol_t \<Rightarrow> char_t \<times> decoder" where
  "decode s NO_SYMBOL = (0, s)"
| "decode s DASH =
     (let b = push_bit 1 (bitmask s);
          c = code s OR b
      in (0, \<lparr>code = c, bitmask = push_bit 1 b\<rparr>))"
| "decode s DOT =
     (let c = code s OR bitmask s
      in (0, \<lparr>code = c, bitmask = push_bit 1 (bitmask s)\<rparr>))"
| "decode s END_OF_CHAR =
     (let c = code_to_char (code s)
      in (c, \<lparr>code = 0, bitmask = 1\<rparr>))"
| "decode s END_OF_WORD = (of_char CHR '' '', s)"

text \<open>A run of symbols through \<open>decode\<close>, collecting the value returned by each call.\<close>

fun decode_run :: "decoder \<Rightarrow> symbol_t list \<Rightarrow> char_t list \<times> decoder" where
  "decode_run s [] = ([], s)"
| "decode_run s (x # xs) =
     (let (c, s') = decode s x;
          (cs, s'') = decode_run s' xs
      in (c # cs, s''))"

section \<open>Software UART transmitter\<close>

text \<open>
  The transmitter's share of the machine state: the shift register, the level of the
  \<open>TX\<close> pin in \<open>PORTB\<close>, and the \<open>OCIE0B\<close> bit of \<open>TIMSK0\<close> that enables the
  \<open>TIM0_COMPB\<close> interrupt.
\<close>

record uart =
  uart_shift_register :: int16_t
  tx_pin :: bool
  ocie0b :: bool

definition init_uart :: uart where
  "init_uart = \<lparr>uart_shift_register = 0, tx_pin = True, ocie0b = False\<rparr>"

text \<open>The body of the interrupt routine. \<open>>>\<close> on an \<open>int16_t\<close> is an arithmetic shift.\<close>

definition TIM0_COMPB_vect :: "uart \<Rightarrow> uart" where
  "TIM0_COMPB_vect s =
     (let shift_register = uart_shift_register s;
          tx = bit shift_register 0;
          shift_register' = signed_drop_bit 1 shift_register;
          en = (if (ucast shift_register' :: uint8_t) = 0 then False else ocie0b s)
      in \<lparr>uart_shift_register = shift_register', tx_pin = tx, ocie0b = en\<rparr>)"

definition uart_putchar :: "uart \<Rightarrow> char_t \<Rightarrow> uart" where
  "uart_putchar s c =
     s\<lparr>uart_shift_register := push_bit 1 (0x0100 OR ucast c), ocie0b := True\<rparr>"

text \<open>
  One compare match of the timer: the hardware runs the routine only while the
  interrupt is enabled.
\<close>

definition tx_tick :: "uart \<Rightarrow> uart" where
  "tx_tick s = (if ocie0b s then TIM0_COMPB_vect s else s)"

text \<open>\<open>n\<close> compare matches, with the level of the line after each.\<close>

fun tx_ticks :: "nat \<Rightarrow> uart \<Rightarrow> bool list \<times> uart" where
  "tx_ticks 0 s = ([], s)"
| "tx_ticks (Suc n) s =
     (let s' = tx_tick s;
          (bs, s'') = tx_ticks n s'
      in (tx_pin s' # bs, s''))"

section \<open>Tokenizer and decoder together\<close>

text \<open>
  The tokenizer and the decoder as the main loop chains them: each poll's symbol goes
  to \<open>decode\<close>. The run records, for each poll, the symbol and the code number held by
  the decoder when it receives the symbol.
\<close>

fun tokenize_decode_run ::
  "delays \<Rightarrow> tokenizer \<Rightarrow> decoder \<Rightarrow> (edge_t \<times> uint16_t) list \<Rightarrow> (symbol_t \<times> uint16_t) list" where
  "tokenize_decode_run d t k [] = []"
| "tokenize_decode_run d t k ((e, now) # ps) =
     (let (symb, t') = tokenize d t e now;
          (c, k') = decode k symb
      in (symb, code k) # tokenize_decode_run d t' k' ps)"

text \<open>
  Every \<open>END_OF_CHAR\<close> of a symbol stream has a \<open>DOT\<close> or \<open>DASH\<close> between it and the
  previous \<open>END_OF_CHAR\<close> (or the start); \<open>seen\<close> tells whether one has been met
  since then.
\<close>

fun marks_precede_ends :: "bool \<Rightarrow> symbol_t list \<Rightarrow> bool" where
  "marks_precede_ends seen [] = True"
| "marks_precede_ends seen (x # xs) =
     (if x = END_OF_CHAR then seen \<and> marks_precede_ends False xs
      else if x = DOT \<or> x = DASH then marks_precede_ends True xs
      else marks_precede_ends seen xs)"

text \<open>The invariant that links the two machines.\<close>

definition pipeline_inv :: "bool \<Rightarrow> tokenizer \<Rightarrow> decoder \<Rightarrow> bool" where
  "pipeline_inv seen t k \<longleftrightarrow>
     (tk_state t = INTERELEMENT \<longrightarrow> seen) \<and>
     (if seen then code k \<noteq> 0 else code k = 0 \<and> bitmask k = 1)"

section \<open>The code table generator\<close>

text \<open>
  The loop of \<open>tools/make-code-table.c\<close> that translates a string of \<open>'.'\<close> and \<open>'-'\<close>
  to a code number, on the host's 32-bit \<open>unsigned int\<close>; \<open>None\<close> stands for
  \<open>EXIT_FAILURE\<close>. The strings themselves (\<open>raw-morse-code.h\<close>) are input data.
\<close>

fun translate_loop :: "32 word \<times> 32 word \<Rightarrow> string \<Rightarrow> (32 word \<times> 32 word) option" where
  "translate_loop (code', bitmask') [] = Some (code', bitmask')"
| "translate_loop (code', bitmask') (p # ps) =
     (if p = CHR ''-''
      then translate_loop (code' OR push_bit 1 bitmask', push_bit 1 (push_bit 1 bitmask')) ps
      else if p \<noteq> CHR ''.'' then None
      else translate_loop (code' OR bitmask', push_bit 1 bitmask') ps)"

definition UINT16_MAX :: "32 word" where "UINT16_MAX = 0xFFFF"

definition translate_code :: "string \<Rightarrow> uint16_t option" where
  "translate_code s =
     (case translate_loop (0, 1) s of
        None \<Rightarrow> None
      | Some (code', bitmask') \<Rightarrow> if code' > UINT16_MAX then None else Some (ucast code'))"

text \<open>The character the generator assigns to index \<open>i\<close> of the table.\<close>

definition table_char :: "nat \<Rightarrow> char_t" where
  "table_char i = (if i = 0 then of_char CHR ''_'' else of_char CHR '' '' + of_nat i)"

text \<open>The symbols the tokenizer produces for the marks of such a string.\<close>

definition key_symbols :: "string \<Rightarrow> symbol_t list" where
  "key_symbols s = map (\<lambda>p. if p = CHR ''-'' then DASH else DOT) s"

text \<open>Entry \<open>i\<close> of the table is 0 (no Morse code) or is found by the search at \<open>i\<close>.\<close>

definition entry_found :: "nat \<Rightarrow> bool" where
  "entry_found i \<longleftrightarrow> morse_code ! i = 0 \<or> code_lookup 0 (morse_code ! i) = i"

section \<open>Marks and gaps as seen by the tokenizer\<close>

text \<open>
  A mark of \<open>n\<close> tics: the falling edge is polled at \<open>t0\<close>, the tokenizer is polled
  with no edge at each following tic, and the rising edge is polled at \<open>t0 + n\<close>.
\<close>

definition mark_polls :: "uint16_t \<Rightarrow> nat \<Rightarrow> (edge_t \<times> uint16_t) list" where
  "mark_polls t0 n = (FALL, t0) # idle_polls t0 n @ [(RISE, t0 + of_nat n)]"

text \<open>
  A gap of \<open>n\<close> tics: the rising edge that ends a mark is polled at \<open>t0\<close>, the
  tokenizer is polled with no edge at each following tic, and the next falling edge is
  polled at \<open>t0 + n\<close>.
\<close>

definition gap_polls :: "uint16_t \<Rightarrow> nat \<Rightarrow> (edge_t \<times> uint16_t) list" where
  "gap_polls t0 n = (RISE, t0) # idle_polls t0 n @ [(FALL, t0 + of_nat n)]"

section \<open>Tic comparison\<close>

lemma sint_of_int_16:
  "- 32768 \<le> x \<Longrightarrow> x < 32768 \<Longrightarrow> sint (word_of_int x :: 16 word) = x"
  by (simp add: sint_sbintrunc' signed_take_bit_int_eq_self)

lemma sint_neg_16: "x \<noteq> 0x8000 \<Longrightarrow> sint (- x :: 16 word) = - sint x"
proof -
  assume a: "x \<noteq> 0x8000"
  have "sint x \<noteq> - 32768"
  proof
    assume "sint x = - 32768"
    then have "word_of_int (sint x) = (word_of_int (- 32768) :: 16 word)" by simp
    then have "x = 0x8000" by simp
    with a show False by simp
  qed
  moreover have "- 32768 \<le> sint x" "sint x < 32768"
    using sint_ge [of x] sint_lt [of x] by simp_all
  ultimately have "- 32768 \<le> - sint x" "- sint x < 32768" by linarith+
  then have "sint (word_of_int (- sint x) :: 16 word) = - sint x"
    by (rule sint_of_int_16)
  then show ?thesis by simp
qed

lemma sint_of_nat_diff:
  "d \<le> 32768 \<Longrightarrow> k < d + 32768 \<Longrightarrow> sint (of_nat k - of_nat d :: 16 word) = int k - int d"
proof -
  assume a: "d \<le> 32768" "k < d + 32768"
  have "(of_nat k - of_nat d :: 16 word) = of_int (int k - int d)" by simp
  moreover have "sint (of_int (int k - int d) :: 16 word) = int k - int d"
    using a by (intro sint_of_int_16) auto
  ultimately show ?thesis by simp
qed

text \<open>
  A deadline armed \<open>d\<close> tics ahead of \<open>t0\<close>, looked at \<open>k\<close> tics after \<open>t0\<close>: the
  comparison is right for every \<open>t0\<close>, whether or not the counter rolls over on the way.
\<close>

lemma expired_after:
  "d \<le> 32768 \<Longrightarrow> k < d + 32768 \<Longrightarrow> expired (t0 + of_nat k) (t0 + of_nat d) \<longleftrightarrow> d \<le> k"
  using sint_of_nat_diff [of d k] by (simp add: expired_def)

lemma expired_flip:
  "deadline - now \<noteq> 0x8000 \<Longrightarrow> expired now deadline \<longleftrightarrow> sint (deadline - now) \<le> 0"
  using sint_neg_16 [of "deadline - now"] by (simp add: expired_def)

text \<open>
  Claim C3, as stated, fails: \<open>expired(now, deadline)\<close> is not, for all 16-bit values,
  the test that \<open>deadline - now\<close> read as a signed 16-bit number is \<open>\<le> 0\<close>. When the two
  are exactly \<open>0x8000\<close> apart, \<open>deadline - now\<close> reads as \<open>-32768\<close>, which is
  \<open>\<le> 0\<close>, while the code computes \<open>now - deadline\<close>, which also reads as \<open>-32768\<close>
  and is not \<open>\<ge> 0\<close>: the timeout has not expired.
\<close>

theorem expired_spec_counterexample:
  "\<not> (expired 0x8000 0 \<longleftrightarrow> sint ((0 :: uint16_t) - 0x8000) \<le> 0)"
  by (simp add: expired_def)

text \<open>
  Claim C3, amended: \<open>expired(now, deadline)\<close> is true iff \<open>now - deadline\<close>, read as a
  signed 16-bit number, is \<open>\<ge> 0\<close>; this is the test \<open>deadline - now \<le> 0\<close> of the
  claim whenever the two values are not exactly \<open>0x8000\<close> apart. For every deadline
  armed \<open>d \<le> 32767\<close> tics ahead of any counter value \<open>t0\<close>, and looked at \<open>k\<close> tics
  after \<open>t0\<close> with \<open>k < d + 32768\<close>, the result is \<open>d \<le> k\<close>: it does not depend on
  \<open>t0\<close>, so a rollover from 65535 to 0 on the way changes nothing.
\<close>

theorem expired_signed_difference:
  "(expired now deadline \<longleftrightarrow> 0 \<le> sint (now - deadline)) \<and>
   (deadline - now \<noteq> 0x8000 \<longrightarrow> (expired now deadline \<longleftrightarrow> sint (deadline - now) \<le> 0)) \<and>
   (d \<le> 32767 \<and> k < d + 32768 \<longrightarrow> (expired (t0 + of_nat k) (t0 + of_nat d) \<longleftrightarrow> d \<le> k))"
  using expired_flip [of deadline now] expired_after [of d k t0]
  by (simp add: expired_def)

text \<open>
  A deadline armed at tic 65000, 1000 tics ahead, lands on 464 after the rollover. At
  tic 0 (536 tics later) it has not expired; at tic 464 it has.
\<close>

theorem expired_signed_difference_witness:
  "(464 :: uint16_t) - 0 \<noteq> 0x8000 \<and> (1000 :: nat) \<le> 32767 \<and> (536 :: nat) < 1000 + 32768 \<and>
   (65000 :: uint16_t) + of_nat 536 = 0 \<and> (65000 :: uint16_t) + of_nat 1000 = 464 \<and>
   \<not> expired 0 464 \<and> 0 < sint ((464 :: uint16_t) - 0) \<and> expired 464 464"
  using expired_signed_difference [of 0 464 1000 536 65000]
    expired_signed_difference [of 464 464 1000 1000 65000]
  by simp

section \<open>Decoding a code number\<close>

lemma code_lookup_ge: "i \<le> code_lookup i c"
proof (induction i c rule: code_lookup.induct)
  case (1 i c)
  show ?case
  proof (cases "i < CODE_LENGTH \<and> morse_code ! i \<noteq> c")
    case True
    then have "code_lookup i c = code_lookup (i + 1) c"
      by (simp add: code_lookup.simps [of i])
    with 1 True show ?thesis by simp
  next
    case False
    then show ?thesis by (auto simp add: code_lookup.simps [of i])
  qed
qed

lemma code_lookup_le: "i \<le> CODE_LENGTH \<Longrightarrow> code_lookup i c \<le> CODE_LENGTH"
proof (induction i c rule: code_lookup.induct)
  case (1 i c)
  show ?case
  proof (cases "i < CODE_LENGTH \<and> morse_code ! i \<noteq> c")
    case True
    then have "code_lookup i c = code_lookup (i + 1) c"
      by (simp add: code_lookup.simps [of i])
    with 1 True show ?thesis by simp
  next
    case False
    with 1 show ?thesis by (auto simp add: code_lookup.simps [of i])
  qed
qed

text \<open>The search for code number 0 stops at index 3, the first zero of the table.\<close>

lemma code_lookup_zero: "code_lookup 0 0 = 3"
  by (simp add: code_lookup.simps morse_code_def CODE_LENGTH_def)

lemma code_lookup_0_iff: "code_lookup 0 c = 0 \<longleftrightarrow> c = 363"
proof -
  have "0 < code_lookup (0 + 1) c"
    using code_lookup_ge [of "0 + 1" c] by simp
  then show ?thesis
    by (auto simp add: code_lookup.simps [of 0] CODE_LENGTH_def morse_code_def)
qed

lemma space_plus_ne_underscore:
  "i < CODE_LENGTH \<Longrightarrow> (of_char CHR '' '' :: char_t) + of_nat i \<noteq> of_char CHR ''_''"
proof
  assume a: "i < CODE_LENGTH" "(of_char CHR '' '' :: char_t) + of_nat i = of_char CHR ''_''"
  then have "(of_nat (32 + i) :: char_t) = of_nat 95" by simp
  then have "(32 + i) mod 256 = 95 mod 256"
    by (simp only: word_of_nat_eq_iff take_bit_eq_mod) simp
  with a(1) show False by (simp add: CODE_LENGTH_def)
qed

lemma code_to_char_underscore: "code_to_char c = of_char CHR ''_'' \<longleftrightarrow> c = 363"
  using space_plus_ne_underscore [of "code_lookup 0 c"]
  by (auto simp add: code_to_char_def Let_def code_lookup_0_iff)

text \<open>
  Claim C1, as stated, fails: \<open>code_to_char(0)\<close> is not \<open>'_'\<close>. The test \<open>i == 0\<close> of
  \<open>code_to_char\<close> is on the index found, not on the code number, and index 0 of
  \<open>morse_code\<close> holds 363; the search for 0 ends at index 3.
\<close>

theorem code_to_char_zero_counterexample:
  "code_to_char 0 \<noteq> of_char CHR ''_''"
  by (simp add: code_to_char_def code_lookup_zero CODE_LENGTH_def)

text \<open>
  Claim C1, amended: the end-of-char step of the decoder with accumulated code number 0
  returns \<open>'#'\<close> (the character of index 3, which is also the "invalid" marker), and
  resets the accumulator; \<open>code_to_char\<close> returns the character \<open>'_'\<close> for code number
  363 (\<open>..--.-\<close>, the entry at index 0) and for no other code number.
\<close>

theorem code_to_char_zero:
  "code_to_char 0 = of_char CHR ''#'' \<and>
   decode \<lparr>code = 0, bitmask = b\<rparr> END_OF_CHAR = (of_char CHR ''#'', \<lparr>code = 0, bitmask = 1\<rparr>) \<and>
   (code_to_char c = of_char CHR ''_'' \<longleftrightarrow> c = 363)"
  using code_to_char_underscore [of c]
  by (simp add: code_to_char_def code_lookup_zero CODE_LENGTH_def)

section \<open>Transmitter framing\<close>

lemma tx_tick_idle: "\<not> ocie0b s \<Longrightarrow> tx_tick s = s"
  by (simp add: tx_tick_def)

text \<open>Once the interrupt is disabled the line keeps its level.\<close>

lemma tx_ticks_idle: "\<not> ocie0b s \<Longrightarrow> tx_ticks n s = (replicate n (tx_pin s), s)"
  by (induction n) (simp_all add: tx_tick_idle)

lemma tx_tick_enabled:
  "tx_tick \<lparr>uart_shift_register = r, tx_pin = p, ocie0b = True\<rparr> =
     \<lparr>uart_shift_register = signed_drop_bit 1 r, tx_pin = bit r 0,
      ocie0b = ((ucast (signed_drop_bit 1 r) :: uint8_t) \<noteq> 0)\<rparr>"
  by (simp add: tx_tick_def TIM0_COMPB_vect_def Let_def)

lemma tx_ticks_Suc_enabled:
  "tx_ticks (Suc n) \<lparr>uart_shift_register = r, tx_pin = p, ocie0b = True\<rparr> =
     (case tx_ticks n \<lparr>uart_shift_register = signed_drop_bit 1 r, tx_pin = bit r 0,
                       ocie0b = ((ucast (signed_drop_bit 1 r) :: uint8_t) \<noteq> 0)\<rparr>
      of (bs, s') \<Rightarrow> (bit r 0 # bs, s'))"
  by (simp add: tx_tick_enabled)

lemma tx_ticks_numeral_enabled:
  "tx_ticks (numeral k) \<lparr>uart_shift_register = r, tx_pin = p, ocie0b = True\<rparr> =
     (case tx_ticks (pred_numeral k)
             \<lparr>uart_shift_register = signed_drop_bit 1 r, tx_pin = bit r 0,
              ocie0b = ((ucast (signed_drop_bit 1 r) :: uint8_t) \<noteq> 0)\<rparr>
      of (bs, s') \<Rightarrow> (bit r 0 # bs, s'))"
  by (simp only: numeral_eq_Suc tx_ticks_Suc_enabled)

text \<open>The level of the line before a frame does not show in the frame.\<close>

lemma tx_ticks_pin_irrelevant:
  "tx_ticks (numeral k) \<lparr>uart_shift_register = r, tx_pin = p, ocie0b = True\<rparr> =
   tx_ticks (numeral k) \<lparr>uart_shift_register = r, tx_pin = True, ocie0b = True\<rparr>"
  by (simp only: tx_ticks_numeral_enabled)

lemma uart_putchar_eq:
  "uart_putchar s c =
     \<lparr>uart_shift_register = push_bit 1 (0x0100 OR ucast c), tx_pin = tx_pin s, ocie0b = True\<rparr>"
  by (simp add: uart_putchar_def)

lemmas tx_eval = tx_ticks_numeral_enabled tx_ticks_Suc_enabled uart_putchar_eq

lemma tx_ticks_add:
  "tx_ticks (m + n) s =
     (fst (tx_ticks m s) @ fst (tx_ticks n (snd (tx_ticks m s))),
      snd (tx_ticks n (snd (tx_ticks m s))))"
  by (induction m arbitrary: s) (simp_all add: Let_def split: prod.splits)

lemma frame_0x41:
  "tx_ticks 10 (uart_putchar s 0x41) =
     ([False, True, False, False, False, False, False, True, False, True],
      \<lparr>uart_shift_register = 0, tx_pin = True, ocie0b = False\<rparr>)"
  by (simp add: tx_eval del: tx_ticks.simps(2))

lemma frame_0x41_before_stop:
  "snd (tx_ticks 9 (uart_putchar s 0x41)) =
     \<lparr>uart_shift_register = 1, tx_pin = False, ocie0b = True\<rparr>"
  by (simp add: tx_eval del: tx_ticks.simps(2))

text \<open>
  Claim C6: after \<open>uart_putchar(0x41)\<close>, whatever the transmitter's state was, the
  first ten compare matches put on the line the start bit 0, the bits 1,0,0,0,0,0,1,0
  of \<open>0x41\<close> (least significant first) and the stop bit 1. The interrupt is still
  enabled after the ninth (the last data bit) and disables itself on the tenth; at every
  later compare match the line is high and the state does not change.
\<close>

theorem uart_frame_0x41:
  "tx_ticks (10 + n) (uart_putchar s 0x41) =
     ([False, True, False, False, False, False, False, True, False, True] @ replicate n True,
      \<lparr>uart_shift_register = 0, tx_pin = True, ocie0b = False\<rparr>) \<and>
   ocie0b (snd (tx_ticks 9 (uart_putchar s 0x41)))"
  by (simp add: tx_ticks_add [of 10 n] frame_0x41 frame_0x41_before_stop tx_ticks_idle
        del: tx_ticks.simps(2))

section \<open>Characters sent by the main loop\<close>

text \<open>The frame of each byte from 32 to 95, checked byte by byte.\<close>

lemma frame_all:
  "list_all (\<lambda>c :: char_t.
       tx_ticks 10 \<lparr>uart_shift_register = push_bit 1 (0x0100 OR ucast c),
                    tx_pin = True, ocie0b = True\<rparr> =
         ([False, bit c 0, bit c 1, bit c 2, bit c 3, bit c 4, bit c 5, bit c 6, bit c 7, True],
          \<lparr>uart_shift_register = 0, tx_pin = True, ocie0b = False\<rparr>) \<and>
       ocie0b (snd (tx_ticks 9 \<lparr>uart_shift_register = push_bit 1 (0x0100 OR ucast c),
                                 tx_pin = True, ocie0b = True\<rparr>)))
     (map of_nat [32..<96])"
  by (simp add: tx_eval upt_rec_numeral del: tx_ticks.simps(2) upt_Suc)

lemma frame_printable:
  assumes "32 \<le> n" "n < 96"
  shows "tx_ticks 10 (uart_putchar u (of_nat n)) =
           ([False, bit (of_nat n :: char_t) 0, bit (of_nat n :: char_t) 1,
             bit (of_nat n :: char_t) 2, bit (of_nat n :: char_t) 3,
             bit (of_nat n :: char_t) 4, bit (of_nat n :: char_t) 5,
             bit (of_nat n :: char_t) 6, bit (of_nat n :: char_t) 7, True],
            \<lparr>uart_shift_register = 0, tx_pin = True, ocie0b = False\<rparr>) \<and>
         ocie0b (snd (tx_ticks 9 (uart_putchar u (of_nat n))))"
proof -
  from assms have "n \<in> {32..<96}" by simp
  then have "(of_nat n :: char_t) \<in> set (map of_nat [32..<96])"
    by (simp only: set_map set_upt) (rule imageI)
  with frame_all show ?thesis
    by (simp only: list_all_iff uart_putchar_eq tx_ticks_pin_irrelevant [of _ _ "tx_pin u"])
qed

lemma printable_word:
  "32 \<le> n \<Longrightarrow> n < 96 \<Longrightarrow>
     32 \<le> (of_nat n :: char_t) \<and> (of_nat n :: char_t) \<le> 95 \<and>
     (of_nat n :: char_t) \<noteq> 0x80 \<and> (of_nat n :: char_t) \<noteq> 0"
proof -
  assume a: "32 \<le> n" "n < 96"
  then have "unat (of_nat n :: char_t) = n"
    by (simp add: unat_of_nat)
  with a show ?thesis
    by (auto simp add: word_le_nat_alt dest: arg_cong [where f = unat])
qed

lemma code_to_char_cases:
  "code_to_char c = of_char CHR ''_'' \<or> code_to_char c = of_char CHR ''#'' \<or>
   (\<exists>i. 1 \<le> i \<and> i \<le> 58 \<and> code_to_char c = of_char CHR '' '' + of_nat i)"
proof -
  let ?i = "code_lookup 0 c"
  consider "?i = 0" | "1 \<le> ?i" "?i \<le> 58" | "\<not> ?i < CODE_LENGTH" "?i \<noteq> 0"
    unfolding CODE_LENGTH_def by linarith
  then show ?thesis
  proof cases
    case 1
    then show ?thesis by (simp add: code_to_char_def)
  next
    case 2
    then have "code_to_char c = of_char CHR '' '' + of_nat ?i"
      by (simp add: code_to_char_def CODE_LENGTH_def)
    with 2 show ?thesis by blast
  next
    case 3
    then show ?thesis by (simp add: code_to_char_def)
  qed
qed

lemma decode_cases:
  "decode st symb = (c, st') \<Longrightarrow> c \<noteq> 0 \<Longrightarrow>
     c = of_char CHR '' '' \<or> c = of_char CHR ''_'' \<or> c = of_char CHR ''#'' \<or>
     (\<exists>i. 1 \<le> i \<and> i \<le> 58 \<and> c = of_char CHR '' '' + of_nat i)"
  using code_to_char_cases [of "code st"]
  by (cases symb) (auto simp add: Let_def)

lemma decode_char_range:
  "decode st symb = (c, st') \<Longrightarrow> c \<noteq> 0 \<Longrightarrow> \<exists>n. 32 \<le> n \<and> n < 96 \<and> c = of_nat n"
proof -
  assume "decode st symb = (c, st')" "c \<noteq> 0"
  then consider "c = of_nat 32" | "c = of_nat 95" | "c = of_nat 35"
    | i where "1 \<le> i" "i \<le> 58" "c = of_nat (32 + i)"
    using decode_cases [of st symb c st'] by auto
  then show ?thesis
  proof cases
    case 4
    then have "32 \<le> 32 + i \<and> 32 + i < 96 \<and> c = of_nat (32 + i)" by simp
    then show ?thesis by blast
  qed (rule exI [of _ 32], simp, rule exI [of _ 95], simp, rule exI [of _ 35], simp)
qed

text \<open>
  Claim C9: a nonzero character returned by \<open>decode\<close> (the only ones the main loop hands
  to \<open>uart_putchar\<close>) lies in 32..95: it is \<open>' '\<close>, \<open>'#'\<close>, \<open>'_'\<close> or \<open>' ' + i\<close> with
  \<open>1 \<le> i \<le> 58\<close>. So it is neither \<open>0x00\<close> nor \<open>0x80\<close>, and its frame is complete: ten
  compare matches put out the start bit, the eight data bits least significant first
  and the stop bit; the test on the low byte of the shift register leaves the interrupt
  enabled after the ninth and disables it on the tenth, the register then being 0.
\<close>

theorem decode_printable_frame:
  assumes "decode st symb = (c, st')" and "c \<noteq> 0"
  shows "32 \<le> c \<and> c \<le> 95 \<and>
     (c = of_char CHR '' '' \<or> c = of_char CHR ''#'' \<or> c = of_char CHR ''_'' \<or>
      (\<exists>i. 1 \<le> i \<and> i \<le> 58 \<and> c = of_char CHR '' '' + of_nat i)) \<and>
     c \<noteq> 0x00 \<and> c \<noteq> 0x80 \<and>
     tx_ticks 10 (uart_putchar u c) =
       ([False, bit c 0, bit c 1, bit c 2, bit c 3, bit c 4, bit c 5, bit c 6, bit c 7, True],
        \<lparr>uart_shift_register = 0, tx_pin = True, ocie0b = False\<rparr>) \<and>
     ocie0b (snd (tx_ticks 9 (uart_putchar u c)))"
proof -
  from assms obtain n where n: "32 \<le> n" "n < 96" "c = of_nat n"
    using decode_char_range by blast
  from assms have "c = of_char CHR '' '' \<or> c = of_char CHR ''#'' \<or> c = of_char CHR ''_'' \<or>
      (\<exists>i. 1 \<le> i \<and> i \<le> 58 \<and> c = of_char CHR '' '' + of_nat i)"
    using decode_cases [of st symb c st'] by blast
  moreover from n have "32 \<le> c \<and> c \<le> 95 \<and> c \<noteq> 0x80 \<and> c \<noteq> 0"
    using printable_word [of n] by simp
  moreover from n have "tx_ticks 10 (uart_putchar u c) =
       ([False, bit c 0, bit c 1, bit c 2, bit c 3, bit c 4, bit c 5, bit c 6, bit c 7, True],
        \<lparr>uart_shift_register = 0, tx_pin = True, ocie0b = False\<rparr>) \<and>
     ocie0b (snd (tx_ticks 9 (uart_putchar u c)))"
    using frame_printable [of n u] by simp
  ultimately show ?thesis by blast
qed

text \<open>
  The end of the character \<open>.-..\<close> (code number 29): \<open>decode\<close> returns \<open>'L'\<close>, whose
  frame is 0, then 0,0,1,1,0,0,1,0, then 1.
\<close>

theorem decode_printable_frame_witness:
  "decode \<lparr>code = 29, bitmask = 32\<rparr> END_OF_CHAR = (of_char CHR ''L'', \<lparr>code = 0, bitmask = 1\<rparr>) \<and>
   (of_char CHR ''L'' :: char_t) \<noteq> 0 \<and>
   tx_ticks 10 (uart_putchar init_uart (of_char CHR ''L'')) =
     ([False, False, False, True, True, False, False, True, False, True],
      \<lparr>uart_shift_register = 0, tx_pin = True, ocie0b = False\<rparr>) \<and>
   ocie0b (snd (tx_ticks 9 (uart_putchar init_uart (of_char CHR ''L''))))"
proof -
  have h1: "decode \<lparr>code = 29, bitmask = 32\<rparr> END_OF_CHAR =
              (of_char CHR ''L'', \<lparr>code = 0, bitmask = 1\<rparr>)"
    by (simp add: code_to_char_def code_lookup.simps morse_code_def CODE_LENGTH_def)
  have h2: "(of_char CHR ''L'' :: char_t) \<noteq> 0" by simp
  from decode_printable_frame [OF h1 h2, of init_uart] h1 show ?thesis
    by simp
qed

section \<open>Timeout horizons\<close>

lemma floor_numeral_div: "\<lfloor>(numeral a :: rat) / numeral b\<rfloor> = numeral a div numeral b"
  using floor_divide_of_int_eq [of "numeral a" "numeral b", where ?'a = rat] by simp

lemma TIMER_TOP_13A: "TIMER_TOP ATtiny13A = 124"
  by (simp add: TIMER_TOP_def BAUD_RATE_def floor_numeral_div)

lemma TIC_FREQ_13A: "TIC_FREQ ATtiny13A = 9600"
  by (simp add: TIC_FREQ_def TIMER_TOP_13A)

lemma TIMER_TOP_85: "TIMER_TOP ATtiny25_45_85 = 103"
  by (simp add: TIMER_TOP_def BAUD_RATE_def floor_numeral_div)

lemma TIC_FREQ_85: "TIC_FREQ ATtiny25_45_85 = 1000000 / 104"
  by (simp add: TIC_FREQ_def TIMER_TOP_85)

lemma DEBOUNCE_TIME_eq: "DEBOUNCE_TIME m = 96"
  by (cases m) (simp_all add: DEBOUNCE_TIME_def TIC_FREQ_13A TIC_FREQ_85 floor_numeral_div)

text \<open>The table of dot durations, in tics, from 18 wpm down to 5 wpm.\<close>

lemma dot_times_13A: "dot_times ATtiny13A = [640, 960, 1440, 2304]"
  by (simp add: dot_times_def DOT_TIME_def TIC_FREQ_13A KEY_RATE_0_def KEY_RATE_1_def
      KEY_RATE_2_def KEY_RATE_3_def floor_numeral_div)

lemma dot_times_85: "dot_times ATtiny25_45_85 = [641, 961, 1442, 2307]"
  by (simp add: dot_times_def DOT_TIME_def TIC_FREQ_85 KEY_RATE_0_def KEY_RATE_1_def
      KEY_RATE_2_def KEY_RATE_3_def floor_numeral_div)

lemma speed_cases: "unat (pinb AND 3 :: uint8_t) \<in> {0, 1, 2, 3}"
proof -
  have "unat (pinb AND 3) \<le> unat (3 :: uint8_t)"
    by (rule word_and_le1 [THEN word_le_nat_alt [THEN iffD1]])
  then have "unat (pinb AND 3) \<le> 3" by simp
  then show ?thesis by auto
qed

lemma set_delays_bounds:
  "unat (delay_2u (set_delays m pinb)) = 2 * unat (delay_1u (set_delays m pinb)) \<and>
   unat (delay_3u (set_delays m pinb)) = 3 * unat (delay_1u (set_delays m pinb)) \<and>
   640 \<le> unat (delay_1u (set_delays m pinb)) \<and>
   unat (delay_1u (set_delays m pinb)) \<le> 2307"
  using speed_cases [of pinb]
  by (cases m) (auto simp add: set_delays_def Let_def dot_times_13A dot_times_85)


lemma get_edge_timeout:
  "ed_timeout (snd (get_edge m s k now)) \<in> {ed_timeout s, now + DEBOUNCE_TIME m}"
  by (cases "ed_state s") (simp_all add: get_edge_def)

lemma tokenize_timeout:
  "tk_timeout (snd (tokenize d t e now)) \<in> {tk_timeout t, now + delay_2u d, now + delay_3u d}"
  by (cases "tk_state t") (simp_all add: tokenize_def)

text \<open>
  Claim C8: for both clock frequencies and every reading of \<open>PINB\<close> (hence each of the
  four speeds), the debounce window and the delays of two and three dot units are at
  most 32767 tics, so a timeout \<open>now + DEBOUNCE_TIME\<close>, \<open>now + delay_2u\<close> or
  \<open>now + delay_3u\<close> lies at most 32767 tics after \<open>now\<close>; the additions of
  \<open>set_delays\<close> do not wrap (\<open>delay_3u\<close> is three dot units). These are the only
  values \<open>get_edge\<close> and \<open>tokenize\<close> ever store into their timeouts. The constants
  are the exact values of the macros; the slack (6921 against 32767) is far larger than
  any rounding of the compiler's floating-point evaluation.
\<close>

theorem timeouts_within_window:
  "unat ((now + DEBOUNCE_TIME m) - now) \<le> 32767 \<and>
   unat ((now + delay_2u (set_delays m pinb)) - now) \<le> 32767 \<and>
   unat ((now + delay_3u (set_delays m pinb)) - now) \<le> 32767 \<and>
   unat (delay_2u (set_delays m pinb)) = 2 * unat (delay_1u (set_delays m pinb)) \<and>
   unat (delay_3u (set_delays m pinb)) = 3 * unat (delay_1u (set_delays m pinb)) \<and>
   ed_timeout (snd (get_edge m s k now)) \<in> {ed_timeout s, now + DEBOUNCE_TIME m} \<and>
   tk_timeout (snd (tokenize (set_delays m pinb) t e now)) \<in>
     {tk_timeout t, now + delay_2u (set_delays m pinb), now + delay_3u (set_delays m pinb)}"
  using set_delays_bounds [of m pinb] get_edge_timeout [of m s k now]
    tokenize_timeout [of "set_delays m pinb" t e now]
  by (simp add: DEBOUNCE_TIME_eq)

section \<open>Debounce\<close>

lemma bouncing_absorbed:
  "ed_state s = BOUNCING \<Longrightarrow> \<forall>now \<in> set nows. \<not> expired now (ed_timeout s) \<Longrightarrow>
     get_edges m s (map (\<lambda>now. (False, now)) nows @ [(True, t)]) =
       (replicate (Suc (length nows)) NO_EDGE, s\<lparr>ed_state := DOWN\<rparr>)"
  by (induction nows) (simp_all add: get_edge_def)

text \<open>
  Claim C7: from \<open>DOWN\<close>, a poll with the key released at \<open>t0\<close>, any number of
  further polls with the key released while the timeout \<open>t0 + DEBOUNCE_TIME\<close> has not
  expired, then a poll with the key down again: every one of these calls returns
  \<open>NO_EDGE\<close>, and the detector is back in \<open>DOWN\<close> (only its timeout has changed).
\<close>

theorem debounce_absorbs_bounce:
  assumes "ed_state s = DOWN"
    and "\<forall>now \<in> set nows. \<not> expired now (t0 + DEBOUNCE_TIME m)"
  shows "get_edges m s ((False, t0) # map (\<lambda>now. (False, now)) nows @ [(True, t)]) =
           (replicate (Suc (Suc (length nows))) NO_EDGE, s\<lparr>ed_timeout := t0 + DEBOUNCE_TIME m\<rparr>) \<and>
         ed_state (snd (get_edges m s ((False, t0) # map (\<lambda>now. (False, now)) nows @ [(True, t)]))) = DOWN"
proof -
  let ?b = "s\<lparr>ed_state := BOUNCING, ed_timeout := t0 + DEBOUNCE_TIME m\<rparr>"
  have "get_edge m s False t0 = (NO_EDGE, ?b)"
    using assms(1) by (simp add: get_edge_def)
  moreover have "get_edges m ?b (map (\<lambda>now. (False, now)) nows @ [(True, t)]) =
       (replicate (Suc (length nows)) NO_EDGE, ?b\<lparr>ed_state := DOWN\<rparr>)"
    using assms(2) by (intro bouncing_absorbed) simp_all
  moreover have "?b\<lparr>ed_state := DOWN\<rparr> = s\<lparr>ed_timeout := t0 + DEBOUNCE_TIME m\<rparr>"
    using assms(1) by simp
  ultimately show ?thesis using assms(1) by simp
qed

text \<open>
  A release at tic 65450: the timeout is 10, after the rollover. Polls at 65500 and at
  9 see the key released, then the key is down again.
\<close>

theorem debounce_absorbs_bounce_witness:
  "ed_state \<lparr>ed_state = DOWN, ed_timeout = 0, led = True\<rparr> = DOWN \<and>
   \<not> expired 65500 (65450 + DEBOUNCE_TIME ATtiny13A) \<and>
   \<not> expired 9 (65450 + DEBOUNCE_TIME ATtiny13A) \<and>
   get_edges ATtiny13A \<lparr>ed_state = DOWN, ed_timeout = 0, led = True\<rparr>
     [(False, 65450), (False, 65500), (False, 9), (True, 9)] =
     ([NO_EDGE, NO_EDGE, NO_EDGE, NO_EDGE], \<lparr>ed_state = DOWN, ed_timeout = 10, led = True\<rparr>)"
proof -
  have h1: "ed_state \<lparr>ed_state = DOWN, ed_timeout = 0, led = True\<rparr> = DOWN" by simp
  have h2: "\<forall>now \<in> set [65500, 9]. \<not> expired now (65450 + DEBOUNCE_TIME ATtiny13A)"
    by (simp add: DEBOUNCE_TIME_eq expired_def)
  from debounce_absorbs_bounce [OF h1 h2, of 9] h2 show ?thesis
    by (simp add: DEBOUNCE_TIME_eq)
qed

section \<open>No blank character through the pipeline\<close>

lemma tokenize_cases:
  "tokenize d t e now = (symb, t') \<Longrightarrow>
     (symb = NO_SYMBOL \<and> tk_state t' \<noteq> INTERELEMENT \<or>
      symb = NO_SYMBOL \<and> t' = t \<or>
      (symb = DOT \<or> symb = DASH) \<and> tk_state t' = INTERELEMENT \<or>
      symb = END_OF_CHAR \<and> tk_state t = INTERELEMENT \<and> tk_state t' = INTERCHARACTER \<or>
      symb = END_OF_WORD \<and> tk_state t' = INTERWORD)"
  by (cases "tk_state t") (auto simp add: tokenize_def split: if_splits)

lemma or_ne_0: "(a :: uint16_t) \<noteq> 0 \<Longrightarrow> a OR b \<noteq> 0"
  by (simp add: or_eq_0_iff)

lemma pipeline_step:
  assumes "pipeline_inv seen t k" "tokenize d t e now = (symb, t')" "decode k symb = (c, k')"
  shows "(symb = END_OF_CHAR \<longrightarrow> seen \<and> code k \<noteq> 0) \<and>
         pipeline_inv (if symb = END_OF_CHAR then False
                       else if symb = DOT \<or> symb = DASH then True else seen) t' k'"
  using tokenize_cases [OF assms(2)] assms(1,3)
  by (cases symb) (auto simp add: pipeline_inv_def Let_def or_ne_0 split: if_splits)

lemma pipeline_run_inv:
  "pipeline_inv seen t k \<Longrightarrow>
     marks_precede_ends seen (map fst (tokenize_decode_run d t k ps)) \<and>
     (END_OF_CHAR, 0) \<notin> set (tokenize_decode_run d t k ps)"
proof (induction ps arbitrary: seen t k)
  case Nil
  then show ?case by simp
next
  case (Cons p ps)
  obtain e now where p: "p = (e, now)" by (cases p)
  obtain symb t' where tk: "tokenize d t e now = (symb, t')" by (cases "tokenize d t e now")
  obtain c k' where dc: "decode k symb = (c, k')" by (cases "decode k symb")
  let ?seen' = "if symb = END_OF_CHAR then False
                else if symb = DOT \<or> symb = DASH then True else seen"
  from pipeline_step [OF Cons.prems tk dc]
  have st: "symb = END_OF_CHAR \<longrightarrow> seen \<and> code k \<noteq> 0" and inv: "pipeline_inv ?seen' t' k'"
    by simp_all
  have run: "tokenize_decode_run d t k (p # ps) = (symb, code k) # tokenize_decode_run d t' k' ps"
    by (simp add: p tk dc)
  from Cons.IH [OF inv] st show ?case
    unfolding run by (cases symb) simp_all
qed

text \<open>
  Claim C10: in every run of the tokenizer from \<open>INTERWORD\<close>, on any sequence of edges
  and tic values, each \<open>END_OF_CHAR\<close> is preceded by a \<open>DOT\<close> or \<open>DASH\<close> emitted since
  the previous \<open>END_OF_CHAR\<close> (or since the start); and the decoder, started at
  \<open>(0, 1)\<close> and fed these symbols, never holds code number 0 when it receives
  \<open>END_OF_CHAR\<close>.
\<close>

theorem end_of_char_after_mark:
  "marks_precede_ends False (map fst (tokenize_decode_run d tokenizer_init decoder_init ps)) \<and>
   (END_OF_CHAR, 0) \<notin> set (tokenize_decode_run d tokenizer_init decoder_init ps)"
  by (rule pipeline_run_inv) (simp add: pipeline_inv_def tokenizer_init_def decoder_init_def)

section \<open>Round trip through the decoder\<close>

text \<open>
  The decoder's 16-bit accumulator is the low half of the generator's 32-bit one.
\<close>

lemma ucast_or_32_16: "(ucast (a OR b :: 32 word) :: 16 word) = ucast a OR ucast b"
  by (rule bit_word_eqI) (simp add: bit_simps)

lemma ucast_push_bit_32_16: "(ucast (push_bit n (a :: 32 word)) :: 16 word) = push_bit n (ucast a)"
  by (rule bit_word_eqI) (auto simp add: bit_simps)

lemma ucast_times_2: "(ucast (b * 2 :: 32 word) :: 16 word) = ucast b * 2"
  using ucast_push_bit_32_16 [of 1 b] by (simp add: push_bit_eq_mult)

lemma ucast_4_times: "(ucast (4 * b :: 32 word) :: 16 word) = 4 * ucast b"
  using ucast_push_bit_32_16 [of 2 b] by (simp add: push_bit_eq_mult mult.commute)

lemma decode_run_append:
  "decode_run s (xs @ ys) =
     (fst (decode_run s xs) @ fst (decode_run (snd (decode_run s xs)) ys),
      snd (decode_run (snd (decode_run s xs)) ys))"
  by (induction xs arbitrary: s) (simp_all add: Let_def split: prod.splits)

lemma decode_run_translate:
  "translate_loop (c, b) s = Some (c', b') \<Longrightarrow>
     decode_run \<lparr>code = ucast c, bitmask = ucast b\<rparr> (key_symbols s) =
       (replicate (length s) 0, \<lparr>code = ucast c', bitmask = ucast b'\<rparr>)"
proof (induction s arbitrary: c b)
  case Nil
  then show ?case by (simp add: key_symbols_def)
next
  case (Cons p ps)
  show ?case
  proof (cases "p = CHR ''-''")
    case True
    with Cons.prems have "translate_loop (c OR push_bit 1 b, push_bit 1 (push_bit 1 b)) ps = Some (c', b')"
      by simp
    from Cons.IH [OF this] True show ?thesis
      by (simp add: key_symbols_def Let_def ucast_or_32_16 ucast_times_2 ucast_4_times)
  next
    case False
    with Cons.prems have dot: "p = CHR ''.''" by (simp split: if_splits)
    with Cons.prems have "translate_loop (c OR b, push_bit 1 b) ps = Some (c', b')"
      by simp
    from Cons.IH [OF this] False show ?thesis
      by (simp add: key_symbols_def Let_def ucast_or_32_16 ucast_times_2 ucast_4_times)
  qed
qed

lemma lookup_all: "list_all entry_found (0 # 1 # [2..<59])"
  by (simp add: upt_rec_numeral entry_found_def code_lookup.simps morse_code_def CODE_LENGTH_def
        del: upt_Suc)

lemma lookup_entry:
  assumes "i < CODE_LENGTH" "morse_code ! i \<noteq> 0"
  shows "code_lookup 0 (morse_code ! i) = i"
proof -
  from assms(1) have "i = 0 \<or> i = 1 \<or> i \<in> {2..<59}"
    by (auto simp add: CODE_LENGTH_def)
  then have "i \<in> set (0 # 1 # [2..<59])"
    by (simp only: set_simps set_upt) blast
  with lookup_all have "entry_found i"
    by (simp only: list_all_iff)
  with assms(2) show ?thesis
    by (simp add: entry_found_def)
qed

lemma code_to_char_entry:
  "i < CODE_LENGTH \<Longrightarrow> morse_code ! i \<noteq> 0 \<Longrightarrow> code_to_char (morse_code ! i) = table_char i"
  by (simp add: code_to_char_def table_char_def lookup_entry)

text \<open>
  Claim C5: let \<open>s\<close> be a dot/dash string that the generator translates to the code
  number stored at index \<open>i\<close> of the table, that entry not being 0 (a zero entry
  marks a character with no Morse code). Feeding the marks of \<open>s\<close> to the decoder, from
  its initial state, returns no character, and the following \<open>END_OF_CHAR\<close> returns the
  character of index \<open>i\<close> and resets the decoder. In particular \<open>DOT, DASH, DOT, DOT,
  END_OF_CHAR\<close> returns \<open>'L'\<close>.
\<close>

theorem round_trip:
  assumes "translate_code s = Some c" and "i < CODE_LENGTH" and "morse_code ! i = c" and "c \<noteq> 0"
  shows "decode_run decoder_init (key_symbols s @ [END_OF_CHAR]) =
           (replicate (length s) 0 @ [table_char i], decoder_init) \<and>
         decode_run decoder_init [DOT, DASH, DOT, DOT, END_OF_CHAR] =
           ([0, 0, 0, 0, of_char CHR ''L''], decoder_init)"
proof -
  from assms(1) obtain c' b' where tl: "translate_loop (0, 1) s = Some (c', b')" and c: "c = ucast c'"
    by (auto simp add: translate_code_def split: option.splits if_splits)
  from decode_run_translate [OF tl]
  have run: "decode_run decoder_init (key_symbols s) =
               (replicate (length s) 0, \<lparr>code = c, bitmask = ucast b'\<rparr>)"
    by (simp add: decoder_init_def c)
  have "code_to_char c = table_char i"
    using code_to_char_entry [of i] assms(2-4) by simp
  then have "decode_run decoder_init (key_symbols s @ [END_OF_CHAR]) =
           (replicate (length s) 0 @ [table_char i], decoder_init)"
    by (simp only: decode_run_append run) (simp add: decoder_init_def)
  moreover have "decode_run decoder_init [DOT, DASH, DOT, DOT, END_OF_CHAR] =
           ([0, 0, 0, 0, of_char CHR ''L''], decoder_init)"
    by (simp add: decoder_init_def code_to_char_def code_lookup.simps morse_code_def CODE_LENGTH_def)
  ultimately show ?thesis by simp
qed

text \<open>The string \<open>.-..\<close> translates to 29, the entry at index 44 (\<open>'L'\<close>).\<close>

theorem round_trip_witness:
  "translate_code ''.-..'' = Some 29 \<and> (44 :: nat) < CODE_LENGTH \<and> morse_code ! 44 = 29 \<and>
   (29 :: uint16_t) \<noteq> 0 \<and> key_symbols ''.-..'' = [DOT, DASH, DOT, DOT] \<and>
   table_char 44 = of_char CHR ''L'' \<and>
   decode_run decoder_init (key_symbols ''.-..'' @ [END_OF_CHAR]) =
     ([0, 0, 0, 0, of_char CHR ''L''], decoder_init)"
proof -
  have h1: "translate_code ''.-..'' = Some 29"
    by (simp add: translate_code_def UINT16_MAX_def)
  have h2: "(44 :: nat) < CODE_LENGTH" by (simp add: CODE_LENGTH_def)
  have h3: "morse_code ! 44 = 29" by (simp add: morse_code_def)
  have h4: "(29 :: uint16_t) \<noteq> 0" by simp
  from round_trip [OF h1 h2 h3 h4] h1 h2 h3 show ?thesis
    by (simp add: table_char_def key_symbols_def)
qed

section \<open>Classification of marks and gaps\<close>

lemma upt_split: "a \<le> D \<Longrightarrow> D < n \<Longrightarrow> [a..<n] = [a..<D] @ D # [Suc D..<n]"
proof -
  assume a: "a \<le> D" "D < n"
  then obtain k where k: "n = D + k" using less_imp_add_positive by blast
  from a(1) have "[a..<D + k] = [a..<D] @ [D..<D + k]" by (rule upt_add_eq_append)
  moreover from a(2) k have "[D..<D + k] = D # [Suc D..<D + k]" by (simp add: upt_conv_Cons)
  ultimately show ?thesis by (simp add: k)
qed

lemma of_nat_unat_16: "(of_nat (unat w) :: uint16_t) = w"
  by simp

lemma tokenize_run_append:
  "tokenize_run d s (xs @ ys) =
     (fst (tokenize_run d s xs) @ fst (tokenize_run d (snd (tokenize_run d s xs)) ys),
      snd (tokenize_run d (snd (tokenize_run d s xs)) ys))"
  by (induction xs arbitrary: s) (auto simp add: Let_def split: prod.splits)

lemma tokenize_idle:
  "\<not> expired now (tk_timeout s) \<Longrightarrow> tokenize d s NO_EDGE now = (NO_SYMBOL, s)"
  by (cases "tk_state s") (simp_all add: tokenize_def)

lemma tokenize_idle_untimed:
  "tk_state s = LONG \<or> tk_state s = INTERWORD \<Longrightarrow> tokenize d s NO_EDGE now = (NO_SYMBOL, s)"
  by (auto simp add: tokenize_def)

text \<open>
  While its timeout has not expired, a poll with no edge leaves the tokenizer as it is,
  whatever its state.
\<close>

lemma idle_before_timeout:
  assumes "tk_timeout s = t0 + of_nat D" and "D \<le> 32768" and "\<forall>k \<in> set ks. k < D"
  shows "tokenize_run d s (map (\<lambda>k. (NO_EDGE, t0 + of_nat k)) ks) = ([], s)"
  using assms(3)
proof (induction ks)
  case Nil
  then show ?case by simp
next
  case (Cons k ks)
  then have "k < D" by simp
  with assms(2) have "\<not> expired (t0 + of_nat k) (t0 + of_nat D)"
    using expired_after [of D k t0] by simp
  then have "tokenize d s NO_EDGE (t0 + of_nat k) = (NO_SYMBOL, s)"
    using assms(1) by (simp add: tokenize_idle)
  with Cons show ?case by simp
qed

lemma idle_untimed:
  assumes "tk_state s = LONG \<or> tk_state s = INTERWORD"
  shows "tokenize_run d s (map (\<lambda>k. (NO_EDGE, f k)) ks) = ([], s)"
  using assms by (induction ks) (simp_all add: tokenize_idle_untimed)

lemma expired_now: "expired now now"
  by (simp add: expired_def)


text \<open>
  The symbol of a mark, for any delays within the comparison window: the rising edge is
  tested before the timeout, so a mark of exactly \<open>delay_2u\<close> tics is still a dot.
\<close>

lemma mark_run:
  assumes gap: "tk_state s = INTERWORD \<or> tk_state s = INTERELEMENT \<or> tk_state s = INTERCHARACTER"
    and D: "1 \<le> unat (delay_2u d)" "unat (delay_2u d) \<le> 32768"
  shows "tokenize_run d s (mark_polls t0 n) =
           ([if n \<le> unat (delay_2u d) then DOT else DASH],
            \<lparr>tk_state = INTERELEMENT, tk_timeout = t0 + of_nat n + delay_2u d\<rparr>)"
proof -
  let ?D = "unat (delay_2u d)"
  let ?f = "\<lambda>k. (NO_EDGE, t0 + of_nat k)"
  let ?s1 = "\<lparr>tk_state = SHORT, tk_timeout = t0 + delay_2u d\<rparr>"
  let ?s2 = "if n \<le> ?D then ?s1 else ?s1\<lparr>tk_state := LONG\<rparr>"
  have first: "tokenize d s FALL t0 = (NO_SYMBOL, ?s1)"
    using gap by (auto simp add: tokenize_def)
  have to: "tk_timeout ?s1 = t0 + of_nat ?D" by simp
  have idle: "tokenize_run d ?s1 (idle_polls t0 n) = ([], ?s2)"
  proof (cases "n \<le> ?D")
    case True
    then have "\<forall>k \<in> set [1..<n]. k < ?D" by auto
    from idle_before_timeout [OF to D(2) this] True show ?thesis
      by (simp add: idle_polls_def)
  next
    case False
    then have lt: "?D < n" by simp
    have split: "[1..<n] = [1..<?D] @ ?D # [Suc ?D..<n]"
      using upt_split [OF D(1) lt] .
    have a: "tokenize_run d ?s1 (map ?f [1..<?D]) = ([], ?s1)"
      by (rule idle_before_timeout [OF to D(2)]) simp
    have b: "tokenize d ?s1 NO_EDGE (t0 + of_nat ?D) = (NO_SYMBOL, ?s1\<lparr>tk_state := LONG\<rparr>)"
      by (simp add: tokenize_def expired_now)
    have c: "tokenize_run d (?s1\<lparr>tk_state := LONG\<rparr>) (map ?f [Suc ?D..<n]) =
               ([], ?s1\<lparr>tk_state := LONG\<rparr>)"
      by (rule idle_untimed) simp
    have "tokenize_run d ?s1 (map ?f ([1..<?D] @ ?D # [Suc ?D..<n])) =
            ([], ?s1\<lparr>tk_state := LONG\<rparr>)"
      using a b c by (simp add: tokenize_run_append del: upt_Suc)
    with False show ?thesis
      unfolding idle_polls_def by (simp only: split [symmetric] if_False)
  qed
  have last: "tokenize d ?s2 RISE (t0 + of_nat n) =
                (if n \<le> ?D then DOT else DASH,
                 \<lparr>tk_state = INTERELEMENT, tk_timeout = t0 + of_nat n + delay_2u d\<rparr>)"
    by (simp add: tokenize_def)
  have "tokenize_run d ?s1 (idle_polls t0 n @ [(RISE, t0 + of_nat n)]) =
          ([if n \<le> ?D then DOT else DASH],
           \<lparr>tk_state = INTERELEMENT, tk_timeout = t0 + of_nat n + delay_2u d\<rparr>)"
    unfolding tokenize_run_append idle using last by simp
  with first show ?thesis
    unfolding mark_polls_def by simp
qed


text \<open>
  The symbols of a gap: the end of the character when the poll at \<open>delay_2u\<close> finds no
  edge, the end of the word \<open>delay_3u\<close> tics after that.
\<close>

lemma gap_run:
  assumes mark: "tk_state s = SHORT \<or> tk_state s = LONG"
    and D: "1 \<le> unat (delay_2u d)" "1 \<le> unat (delay_3u d)"
      "unat (delay_2u d) + unat (delay_3u d) \<le> 32768"
  shows "tokenize_run d s (gap_polls t0 n) =
           ((if tk_state s = SHORT then DOT else DASH) #
            (if n \<le> unat (delay_2u d) then []
             else if n \<le> unat (delay_2u d) + unat (delay_3u d) then [END_OF_CHAR]
             else [END_OF_CHAR, END_OF_WORD]),
            \<lparr>tk_state = SHORT, tk_timeout = t0 + of_nat n + delay_2u d\<rparr>)"
proof -
  let ?D2 = "unat (delay_2u d)"
  let ?D5 = "unat (delay_2u d) + unat (delay_3u d)"
  let ?f = "\<lambda>k. (NO_EDGE, t0 + of_nat k)"
  let ?s1 = "\<lparr>tk_state = INTERELEMENT, tk_timeout = t0 + delay_2u d\<rparr>"
  let ?s3 = "\<lparr>tk_state = INTERCHARACTER, tk_timeout = t0 + delay_2u d + delay_3u d\<rparr>"
  let ?s4 = "\<lparr>tk_state = INTERWORD, tk_timeout = t0 + delay_2u d + delay_3u d\<rparr>"
  let ?syms = "if n \<le> ?D2 then [] else if n \<le> ?D5 then [END_OF_CHAR]
               else [END_OF_CHAR, END_OF_WORD]"
  let ?s' = "if n \<le> ?D2 then ?s1 else if n \<le> ?D5 then ?s3 else ?s4"
  from D have D2: "?D2 \<le> 32768" by simp
  have first: "tokenize d s RISE t0 = (if tk_state s = SHORT then DOT else DASH, ?s1)"
    using mark by (auto simp add: tokenize_def)
  have to1: "tk_timeout ?s1 = t0 + of_nat ?D2" by simp
  have to3: "tk_timeout ?s3 = t0 + of_nat ?D5" by simp
  have phase2: "tokenize_run d ?s3 (map ?f [Suc ?D2..<n]) =
                  (if n \<le> ?D5 then ([], ?s3) else ([END_OF_WORD], ?s4))"
  proof (cases "n \<le> ?D5")
    case True
    then have "\<forall>k \<in> set [Suc ?D2..<n]. k < ?D5" by auto
    from idle_before_timeout [OF to3 D(3) this] True show ?thesis by simp
  next
    case False
    then have lt: "?D5 < n" by simp
    from D(2) have le: "Suc ?D2 \<le> ?D5" by simp
    have split: "[Suc ?D2..<n] = [Suc ?D2..<?D5] @ ?D5 # [Suc ?D5..<n]"
      using upt_split [OF le lt] .
    have a: "tokenize_run d ?s3 (map ?f [Suc ?D2..<?D5]) = ([], ?s3)"
      by (rule idle_before_timeout [OF to3 D(3)]) simp
    have "t0 + of_nat ?D5 = t0 + delay_2u d + delay_3u d" by simp
    then have b: "tokenize d ?s3 NO_EDGE (t0 + of_nat ?D5) = (END_OF_WORD, ?s4)"
      by (simp only: tokenize_def) (simp add: expired_now)
    have c: "tokenize_run d ?s4 (map ?f [Suc ?D5..<n]) = ([], ?s4)"
      by (rule idle_untimed) simp
    have "tokenize_run d ?s3 (map ?f ([Suc ?D2..<?D5] @ ?D5 # [Suc ?D5..<n])) =
            ([END_OF_WORD], ?s4)"
      using a b c by (simp add: tokenize_run_append del: upt_Suc)
    with False show ?thesis
      by (simp only: split [symmetric] if_False)
  qed
  have idle: "tokenize_run d ?s1 (idle_polls t0 n) = (?syms, ?s')"
  proof (cases "n \<le> ?D2")
    case True
    then have "\<forall>k \<in> set [1..<n]. k < ?D2" by auto
    from idle_before_timeout [OF to1 D2 this] True show ?thesis
      by (simp add: idle_polls_def)
  next
    case False
    then have lt: "?D2 < n" by simp
    have split: "[1..<n] = [1..<?D2] @ ?D2 # [Suc ?D2..<n]"
      using upt_split [OF D(1) lt] .
    have a: "tokenize_run d ?s1 (map ?f [1..<?D2]) = ([], ?s1)"
      by (rule idle_before_timeout [OF to1 D2]) simp
    have b: "tokenize d ?s1 NO_EDGE (t0 + of_nat ?D2) = (END_OF_CHAR, ?s3)"
      by (simp add: tokenize_def expired_now)
    have "tokenize_run d ?s1 (map ?f ([1..<?D2] @ ?D2 # [Suc ?D2..<n])) = (?syms, ?s')"
      using a b phase2 False by (simp add: tokenize_run_append del: upt_Suc)
    then show ?thesis
      unfolding idle_polls_def by (simp only: split [symmetric])
  qed
  have last: "tokenize d ?s' FALL (t0 + of_nat n) =
                (NO_SYMBOL, \<lparr>tk_state = SHORT, tk_timeout = t0 + of_nat n + delay_2u d\<rparr>)"
    by (simp add: tokenize_def)
  have "tokenize_run d ?s1 (idle_polls t0 n @ [(FALL, t0 + of_nat n)]) =
          (?syms, \<lparr>tk_state = SHORT, tk_timeout = t0 + of_nat n + delay_2u d\<rparr>)"
    unfolding tokenize_run_append idle using last by simp
  with first show ?thesis
    unfolding gap_polls_def by simp
qed


lemma set_delays_13A_0:
  "set_delays ATtiny13A 0 = \<lparr>delay_1u = 640, delay_2u = 1280, delay_3u = 1920\<rparr>"
  by (simp add: set_delays_def dot_times_13A)

text \<open>
  Claim C4, amended: for every mark entered from a gap state (\<open>INTERWORD\<close>,
  \<open>INTERELEMENT\<close> or \<open>INTERCHARACTER\<close>), at each speed, with the tokenizer polled every
  tic: if the rising edge is polled at most 2 time units after the falling edge (exact
  equality included) the tokenizer emits exactly one dot; if it is polled more than 2
  time units after, exactly one dash. Either way it then waits in \<open>INTERELEMENT\<close>.
\<close>

theorem mark_classification:
  assumes "tk_state s = INTERWORD \<or> tk_state s = INTERELEMENT \<or> tk_state s = INTERCHARACTER"
  shows "tokenize_run (set_delays m pinb) s (mark_polls t0 n) =
           ([if n \<le> 2 * unat (delay_1u (set_delays m pinb)) then DOT else DASH],
            \<lparr>tk_state = INTERELEMENT,
             tk_timeout = t0 + of_nat n + delay_2u (set_delays m pinb)\<rparr>)"
  using mark_run [OF assms, of "set_delays m pinb" t0 n] set_delays_bounds [of m pinb]
  by simp

text \<open>At 18 wpm on the ATtiny13A (a dot is 640 tics): marks of 1281 and of 1279 tics.\<close>

theorem mark_classification_witness:
  "(tk_state tokenizer_init = INTERWORD \<or> tk_state tokenizer_init = INTERELEMENT \<or>
    tk_state tokenizer_init = INTERCHARACTER) \<and>
   unat (delay_1u (set_delays ATtiny13A 0)) = 640 \<and>
   tokenize_run (set_delays ATtiny13A 0) tokenizer_init (mark_polls 0 1281) =
     ([DASH], \<lparr>tk_state = INTERELEMENT, tk_timeout = 2561\<rparr>) \<and>
   tokenize_run (set_delays ATtiny13A 0) tokenizer_init (mark_polls 0 1279) =
     ([DOT], \<lparr>tk_state = INTERELEMENT, tk_timeout = 2559\<rparr>)"
proof -
  have h: "tk_state tokenizer_init = INTERWORD \<or> tk_state tokenizer_init = INTERELEMENT \<or>
    tk_state tokenizer_init = INTERCHARACTER"
    by (simp add: tokenizer_init_def)
  from mark_classification [OF h, of ATtiny13A 0 0 1281]
    mark_classification [OF h, of ATtiny13A 0 0 1279] h
  show ?thesis by (simp add: set_delays_13A_0)
qed

text \<open>
  Claim C4, as stated, fails at exact equality: at 18 wpm two time units are 1280
  tics, and a mark whose rising edge is polled exactly 1280 tics after its falling edge
  is a dot, not a dash.
\<close>

theorem mark_of_2u_counterexample:
  "unat (delay_2u (set_delays ATtiny13A 0)) = 1280 \<and>
   fst (tokenize_run (set_delays ATtiny13A 0) tokenizer_init (mark_polls 0 1280)) = [DOT]"
proof -
  have h: "tk_state tokenizer_init = INTERWORD \<or> tk_state tokenizer_init = INTERELEMENT \<or>
    tk_state tokenizer_init = INTERCHARACTER"
    by (simp add: tokenizer_init_def)
  from mark_run [OF h, of "set_delays ATtiny13A 0" 0 1280] show ?thesis
    by (simp add: set_delays_13A_0)
qed

text \<open>
  Claim C2, amended: for every gap following a mark (the rising edge arriving in
  \<open>SHORT\<close> or \<open>LONG\<close>, which emits the mark's dot or dash), at each speed, with the
  tokenizer polled every tic: a gap of at most 2 time units produces no end-of-char; a
  gap of more than 2 and at most 5 time units produces exactly one end-of-char and no
  end-of-word; a gap of more than 5 time units produces an end-of-char followed by an
  end-of-word. The falling edge then starts a new mark (\<open>SHORT\<close>).
\<close>

theorem gap_classification:
  assumes "tk_state s = SHORT \<or> tk_state s = LONG"
  shows "tokenize_run (set_delays m pinb) s (gap_polls t0 n) =
           ((if tk_state s = SHORT then DOT else DASH) #
            (if n \<le> 2 * unat (delay_1u (set_delays m pinb)) then []
             else if n \<le> 5 * unat (delay_1u (set_delays m pinb)) then [END_OF_CHAR]
             else [END_OF_CHAR, END_OF_WORD]),
            \<lparr>tk_state = SHORT, tk_timeout = t0 + of_nat n + delay_2u (set_delays m pinb)\<rparr>)"
  using gap_run [OF assms, of "set_delays m pinb" t0 n] set_delays_bounds [of m pinb]
  by simp

text \<open>At 18 wpm on the ATtiny13A, after a dot: gaps of 3201 and of 1281 tics.\<close>

theorem gap_classification_witness:
  "(tk_state \<lparr>tk_state = SHORT, tk_timeout = 1280\<rparr> = SHORT \<or>
    tk_state \<lparr>tk_state = SHORT, tk_timeout = 1280\<rparr> = LONG) \<and>
   unat (delay_1u (set_delays ATtiny13A 0)) = 640 \<and>
   tokenize_run (set_delays ATtiny13A 0) \<lparr>tk_state = SHORT, tk_timeout = 1280\<rparr>
       (gap_polls 500 3201) =
     ([DOT, END_OF_CHAR, END_OF_WORD], \<lparr>tk_state = SHORT, tk_timeout = 4981\<rparr>) \<and>
   tokenize_run (set_delays ATtiny13A 0) \<lparr>tk_state = SHORT, tk_timeout = 1280\<rparr>
       (gap_polls 500 1281) =
     ([DOT, END_OF_CHAR], \<lparr>tk_state = SHORT, tk_timeout = 3061\<rparr>)"
proof -
  have h: "tk_state \<lparr>tk_state = SHORT, tk_timeout = 1280\<rparr> = SHORT \<or>
    tk_state \<lparr>tk_state = SHORT, tk_timeout = 1280\<rparr> = LONG"
    by simp
  from gap_classification [OF h, of ATtiny13A 0 500 3201]
    gap_classification [OF h, of ATtiny13A 0 500 1281]
  show ?thesis by (simp add: set_delays_13A_0)
qed

text \<open>
  Claim C2, as stated, fails: at 18 wpm (a time unit is 640 tics) a gap of exactly 3
  units, 1920 tics, produces an end-of-char and no end-of-word, and a gap of exactly 2
  units, 1280 tics, produces no end-of-char.
\<close>

theorem gap_of_3u_counterexample:
  "unat (delay_1u (set_delays ATtiny13A 0)) = 640 \<and>
   fst (tokenize_run (set_delays ATtiny13A 0) \<lparr>tk_state = SHORT, tk_timeout = 1280\<rparr>
          (gap_polls 500 1920)) = [DOT, END_OF_CHAR] \<and>
   fst (tokenize_run (set_delays ATtiny13A 0) \<lparr>tk_state = SHORT, tk_timeout = 1280\<rparr>
          (gap_polls 500 1280)) = [DOT]"
proof -
  have h: "tk_state \<lparr>tk_state = SHORT, tk_timeout = 1280\<rparr> = SHORT \<or>
    tk_state \<lparr>tk_state = SHORT, tk_timeout = 1280\<rparr> = LONG"
    by simp
  from gap_run [OF h, of "set_delays ATtiny13A 0" 500 1920]
    gap_run [OF h, of "set_delays ATtiny13A 0" 500 1280]
  show ?thesis by (simp add: set_delays_13A_0)
qed

end
